theory Spec2Isabelle
  imports Complex_Main "HOL-Library.Word"
begin

section \<open>Host-language values used by the reader\<close>

text \<open>
  The program is the class \<open>RSVPReader\<close> of \<open>src/app.js\<close>. A string of the host is the
  list of its UTF-16 code units; \<open>length\<close> counts them, as \<open>.length\<close> does. \<open>ascii\<close>
  gives the code units of a text written in ASCII.
\<close>

type_synonym code_unit = "16 word"

type_synonym jsstring = "code_unit list"

definition ascii :: "string \<Rightarrow> jsstring" where
  "ascii s = map of_char s"

text \<open>
  The regular expression \<open>\s\<close>, \<open>String.prototype.trim\<close> and \<open>parseInt\<close> share one
  whitespace class, the white space and line terminator code points of the language: tab,
  line feed, vertical tab, form feed, carriage return, space, no-break space, the Unicode
  space separators (U+1680, U+2000 to U+200A, U+202F, U+205F, U+3000), the line and paragraph
  separators and the byte order mark. All lie in the basic plane, so each is one code unit.
\<close>

definition is_space :: "code_unit \<Rightarrow> bool" where
  "is_space c \<longleftrightarrow>
     c \<in> set [0x0009, 0x000A, 0x000B, 0x000C, 0x000D, 0x0020, 0x00A0, 0x1680,
              0x2000, 0x2001, 0x2002, 0x2003, 0x2004, 0x2005, 0x2006, 0x2007, 0x2008,
              0x2009, 0x200A, 0x2028, 0x2029, 0x202F, 0x205F, 0x3000, 0xFEFF]"

text \<open>\<open>s.trim()\<close>: whitespace removed at both ends.\<close>

definition trim :: "jsstring \<Rightarrow> jsstring" where
  "trim s = rev (dropWhile is_space (rev (dropWhile is_space s)))"

text \<open>
  \<open>s.split(/\s+/)\<close>. The host scans the string from the left; \<open>piece\<close> holds, reversed, the
  characters read since the last separator. A whitespace character starts a match that greedily
  takes the whole run; the piece before it is emitted, also when it is empty (leading
  whitespace). The piece after the last separator is always emitted, also when it is empty
  (trailing whitespace, or the empty string).
\<close>

function split_from :: "jsstring \<Rightarrow> jsstring \<Rightarrow> jsstring list" where
  "split_from piece [] = [rev piece]"
| "split_from piece (c # cs) =
     (if is_space c then rev piece # split_from [] (dropWhile is_space cs)
      else split_from (c # piece) cs)"
  by pat_completeness auto
termination
  by (relation "measure (\<lambda>(piece, s). length s)")
     (auto simp: less_Suc_eq_le length_dropWhile_le)

definition split_ws :: "jsstring \<Rightarrow> jsstring list" where
  "split_ws s = split_from [] s"

text \<open>
  Numbers: \<open>NaN\<close>, an infinite value, or a finite value, kept exact (rounding to a double and
  the sign of zero and of infinity are not tracked).
\<close>

datatype number = NaN | Infinity | Num rat

text \<open>
  \<open>parseInt(value)\<close> with no radix: leading whitespace is skipped, a sign is read, a prefix
  \<open>0x\<close> or \<open>0X\<close> selects radix 16, and the longest prefix of digits is the value; no digit at
  all gives \<open>NaN\<close>.
\<close>

definition digit_value :: "code_unit \<Rightarrow> nat option" where
  "digit_value = map_of (zip (ascii ''0123456789abcdef'') [0..<16] @ zip (ascii ''ABCDEF'') [10..<16])"

definition is_digit :: "nat \<Rightarrow> code_unit \<Rightarrow> bool" where
  "is_digit radix c \<longleftrightarrow> (case digit_value c of None \<Rightarrow> False | Some d \<Rightarrow> d < radix)"

definition digits_value :: "nat \<Rightarrow> jsstring \<Rightarrow> nat" where
  "digits_value radix ds =
     foldl (\<lambda>a c. a * radix + (case digit_value c of None \<Rightarrow> 0 | Some d \<Rightarrow> d)) 0 ds"

definition parseInt :: "jsstring \<Rightarrow> number" where
  "parseInt s =
     (let s1 = dropWhile is_space s;
          neg = (case s1 of [] \<Rightarrow> False | c # _ \<Rightarrow> c = 0x2D);
          s2 = (case s1 of [] \<Rightarrow> [] | c # r \<Rightarrow> if c = 0x2D \<or> c = 0x2B then r else s1);
          hex = (case s2 of a # b # _ \<Rightarrow> a = 0x30 \<and> (b = 0x78 \<or> b = 0x58)
                 | _ \<Rightarrow> False);
          radix = (if hex then 16 else 10);
          ds = takeWhile (is_digit radix) (if hex then drop 2 s2 else s2)
      in if ds = [] then NaN
         else Num (if neg then - of_nat (digits_value radix ds) else of_nat (digits_value radix ds)))"

text \<open>\<open>60000 / this.wpm\<close> (line 218): the division of the host, which never raises.\<close>

definition msPerWord :: "number \<Rightarrow> number" where
  "msPerWord w =
     (case w of NaN \<Rightarrow> NaN | Infinity \<Rightarrow> Num 0
      | Num r \<Rightarrow> if r = 0 then Infinity else Num (60000 / r))"

text \<open>\<open>xs[i]\<close>: reading an array past its end gives \<open>undefined\<close>, here \<open>None\<close>.\<close>

definition element :: "'a list \<Rightarrow> nat \<Rightarrow> 'a option" where
  "element xs i = (if i < length xs then Some (xs ! i) else None)"


section \<open>The reader and its page\<close>

text \<open>
  One record holds the fields of the object (\<open>words\<close> to \<open>wpm\<close>), the parts of the page its
  playback methods write (\<open>wordDisplay.textContent\<close> and \<open>style.fontSize\<close> in rem, the
  \<open>disabled\<close> flags of the two buttons, the width of the progress bar in percent, the two
  numbers of the word counter, the number on the rate label), and the interval timers of the
  host: the live ones with their delays, and the next handle the host will give out.
  \<open>intervalId\<close> is \<open>None\<close> for \<open>null\<close>. The text area, the URL tab and its status line are
  not modelled: no playback method reads them.
\<close>

record reader =
  words :: "jsstring list"
  currentWordIndex :: nat
  isPlaying :: bool
  intervalId :: "nat option"
  wpm :: number
  wordDisplay :: jsstring
  fontSize :: rat
  playBtnDisabled :: bool
  pauseBtnDisabled :: bool
  progressWidth :: rat
  wordCounter :: "nat \<times> nat"
  wpmValue :: number
  timers :: "(nat \<times> number) list"
  nextTimerId :: nat

datatype signal = EmptySequence | TypeError

definition readyText :: jsstring where
  "readyText = ascii ''Ready to Start''"

definition startText :: jsstring where
  "startText = ascii ''Start Reading''"

definition finishedText :: jsstring where
  "finishedText = ascii ''Finished! '' @ [0xD83C, 0xDF89]"

definition sampleText :: jsstring where
  "sampleText =
     (ascii ''Welcome to the RSVP Speed Reader! This application uses Rapid Serial Visual '') @
     (ascii ''Presentation to help you read faster. Simply paste your text or fetch an article '') @
     (ascii ''from a URL, adjust your preferred reading speed using the slider below, and hit '') @
     (ascii ''play. The technique works by displaying one word at a time, eliminating the need '') @
     (ascii ''for eye movement and allowing you to focus entirely on comprehension. Start with '') @
     (ascii ''a comfortable speed and gradually increase it as you become more proficient. '') @
     (ascii ''Happy reading!'')"

subsection \<open>Host timers\<close>

definition setInterval :: "number \<Rightarrow> reader \<Rightarrow> nat \<times> reader" where
  "setInterval ms e =
     (nextTimerId e,
      e\<lparr>timers := timers e @ [(nextTimerId e, ms)], nextTimerId := Suc (nextTimerId e)\<rparr>)"

definition clearInterval :: "nat \<Rightarrow> reader \<Rightarrow> reader" where
  "clearInterval i e = e\<lparr>timers := filter (\<lambda>t. fst t \<noteq> i) (timers e)\<rparr>"

subsection \<open>Methods\<close>

definition updateWordCounter :: "reader \<Rightarrow> reader" where
  "updateWordCounter e = e\<lparr>wordCounter := (currentWordIndex e, length (words e))\<rparr>"

definition updateProgress :: "reader \<Rightarrow> reader" where
  "updateProgress e =
     (if length (words e) = 0 then e\<lparr>progressWidth := 0\<rparr>
      else e\<lparr>progressWidth :=
                of_nat (currentWordIndex e) / of_nat (length (words e)) * 100\<rparr>)"

text \<open>The expression of lines 83 to 86: split, drop the empty pieces, trim each piece.\<close>

definition split_words :: "jsstring \<Rightarrow> jsstring list" where
  "split_words text = map trim (filter (\<lambda>word. 0 < length word) (split_ws text))"

definition loadText :: "jsstring \<Rightarrow> reader \<Rightarrow> reader" where
  "loadText text e =
     (if text = [] \<or> trim text = [] then updateWordCounter (e\<lparr>words := []\<rparr>)
      else
        let e1 = e\<lparr>words := split_words text\<rparr>;
            e2 = e1\<lparr>currentWordIndex := 0\<rparr>;
            e3 = updateProgress (updateWordCounter e2)
        in if 0 < length (words e3) then e3\<lparr>wordDisplay := readyText\<rparr> else e3)"

text \<open>The word sequence \<open>loadText\<close> installs for a text, on either of its two paths.\<close>

definition tokenize :: "jsstring \<Rightarrow> jsstring list" where
  "tokenize text = (if text = [] \<or> trim text = [] then [] else split_words text)"

definition loadSampleText :: "reader \<Rightarrow> reader" where
  "loadSampleText e = loadText sampleText e"

definition fontSizeFor :: "jsstring \<Rightarrow> rat" where
  "fontSizeFor word =
     (if 15 < length word then 7 / 2 * (6 / 10)
      else if 10 < length word then 7 / 2 * (75 / 100)
      else if 7 < length word then 7 / 2 * (9 / 10)
      else 7 / 2)"

text \<open>
  \<open>displayWord\<close> reads \<open>words[currentWordIndex]\<close>. Were the read to give \<open>undefined\<close>,
  \<open>word.length\<close> would throw; that is the result \<open>None\<close>.
\<close>

definition displayWord :: "reader \<Rightarrow> reader option" where
  "displayWord e =
     (if currentWordIndex e < length (words e) then
        (case element (words e) (currentWordIndex e) of
           None \<Rightarrow> None
         | Some word \<Rightarrow>
             Some ((updateWordCounter (updateProgress (e\<lparr>wordDisplay := word\<rparr>)))
                     \<lparr>fontSize := fontSizeFor word\<rparr>))
      else Some e)"

definition pause :: "reader \<Rightarrow> reader" where
  "pause e =
     (let e1 = e\<lparr>isPlaying := False, playBtnDisabled := False, pauseBtnDisabled := True\<rparr>
      in case intervalId e1 of
           None \<Rightarrow> e1
         | Some i \<Rightarrow> if i = 0 then e1 else (clearInterval i e1)\<lparr>intervalId := None\<rparr>)"

text \<open>
  \<open>play\<close> returns what it reports with the state it leaves: \<open>Some EmptySequence\<close> is the
  alert of line 204, after which it returns at once.
\<close>

definition play :: "reader \<Rightarrow> signal option \<times> reader" where
  "play e =
     (if length (words e) = 0 then (Some EmptySequence, e)
      else
        let e1 = (if length (words e) \<le> currentWordIndex e then e\<lparr>currentWordIndex := 0\<rparr>
                  else e);
            e2 = e1\<lparr>isPlaying := True, playBtnDisabled := True, pauseBtnDisabled := False\<rparr>
        in case displayWord e2 of
             None \<Rightarrow> (Some TypeError, e2)
           | Some e3 \<Rightarrow>
               (case setInterval (msPerWord (wpm e3)) e3 of
                  (i, e4) \<Rightarrow> (None, e4\<lparr>intervalId := Some i\<rparr>)))"

text \<open>The callback given to \<open>setInterval\<close> (lines 219 to 229).\<close>

definition tick :: "reader \<Rightarrow> reader" where
  "tick e =
     (let e1 = e\<lparr>currentWordIndex := Suc (currentWordIndex e)\<rparr>
      in if length (words e1) \<le> currentWordIndex e1
         then (pause e1)\<lparr>wordDisplay := finishedText\<rparr>
         else (case displayWord e1 of None \<Rightarrow> e1 | Some e2 \<Rightarrow> e2))"

definition reset :: "reader \<Rightarrow> reader" where
  "reset e =
     (let e1 = pause e;
          e2 = e1\<lparr>currentWordIndex := 0\<rparr>;
          e3 = e2\<lparr>wordDisplay := (if 0 < length (words e2) then readyText else startText)\<rparr>
      in updateWordCounter (updateProgress e3))"

definition updateWPM :: "jsstring \<Rightarrow> reader \<Rightarrow> signal option \<times> reader" where
  "updateWPM v e =
     (let e1 = e\<lparr>wpm := parseInt v\<rparr>;
          e2 = e1\<lparr>wpmValue := wpm e1\<rparr>
      in if isPlaying e2 then play (pause e2) else (None, e2))"

subsection \<open>Construction and events\<close>

text \<open>
  The constructor sets the five fields and \<open>init\<close> registers the listeners and loads the
  sample text. \<open>page\<close> is the page and the host as the constructor finds them.
\<close>

definition init :: "reader \<Rightarrow> reader" where
  "init e = loadSampleText e"

definition new_RSVPReader :: "reader \<Rightarrow> reader" where
  "new_RSVPReader page =
     init (page\<lparr>words := [], currentWordIndex := 0, isPlaying := False,
                intervalId := None, wpm := Num 250\<rparr>)"

text \<open>
  The listeners of \<open>init\<close>, and the host firing the interval callback. A disabled button
  dispatches no click; the callback runs only while a timer is live. \<open>TextInput\<close> is also
  what a successful \<open>fetchFromURL\<close> does to the reader: it calls \<open>loadText\<close>.
\<close>

datatype event = ClickPlay | ClickPause | ClickReset | SliderInput jsstring | TextInput jsstring
  | TimerFires

fun dispatch :: "event \<Rightarrow> reader \<Rightarrow> reader" where
  "dispatch ClickPlay e = (if playBtnDisabled e then e else snd (play e))"
| "dispatch ClickPause e = (if pauseBtnDisabled e then e else pause e)"
| "dispatch ClickReset e = reset e"
| "dispatch (SliderInput v) e = snd (updateWPM v e)"
| "dispatch (TextInput text) e = loadText text e"
| "dispatch TimerFires e = (if timers e = [] then e else tick e)"

fun run :: "event list \<Rightarrow> reader \<Rightarrow> reader" where
  "run [] e = e"
| "run (ev # evs) e = run evs (dispatch ev e)"

inductive reachable :: "reader \<Rightarrow> bool" where
  start: "timers page = [] \<Longrightarrow> 0 < nextTimerId page \<Longrightarrow> reachable (new_RSVPReader page)"
| step: "reachable e \<Longrightarrow> reachable (dispatch ev e)"

text \<open>A page for concrete runs: both buttons enabled, nothing shown, no timer yet.\<close>

definition page0 :: reader where
  "page0 = \<lparr>words = [], currentWordIndex = 0, isPlaying = False, intervalId = None,
            wpm = NaN, wordDisplay = [], fontSize = 7 / 2, playBtnDisabled = False,
            pauseBtnDisabled = False, progressWidth = 0, wordCounter = (0, 0),
            wpmValue = NaN, timers = [], nextTimerId = 1\<rparr>"

text \<open>
  The Finished state: the callback has stopped playback at the end of the sequence and put
  the closing message on the display.
\<close>

definition finished :: "reader \<Rightarrow> bool" where
  "finished e \<longleftrightarrow> \<not> isPlaying e \<and> wordDisplay e = finishedText"


section \<open>Invariant and concrete states\<close>

text \<open>The handles of the host's live interval timers.\<close>

definition live_handles :: "reader \<Rightarrow> nat list" where
  "live_handles e = map fst (timers e)"

text \<open>
  What every reachable state satisfies. For the timer: the handle the reader holds is the
  only live timer, it holds one exactly while it plays, and the play button is disabled
  while it plays.
\<close>

definition timer_inv :: "reader \<Rightarrow> bool" where
  "timer_inv e \<longleftrightarrow>
     live_handles e = (case intervalId e of None \<Rightarrow> [] | Some i \<Rightarrow> [i])
     \<and> (isPlaying e \<longleftrightarrow> intervalId e \<noteq> None)
     \<and> intervalId e \<noteq> Some 0
     \<and> 0 < nextTimerId e
     \<and> (isPlaying e \<longrightarrow> playBtnDisabled e)"

text \<open>
  For the position: the closing message is no word, and with a non-empty sequence the index
  is in range, short of the end while playing, and at the end exactly when the display shows
  the closing message.
\<close>

definition position_inv :: "reader \<Rightarrow> bool" where
  "position_inv e \<longleftrightarrow>
     finishedText \<notin> set (words e)
     \<and> (words e \<noteq> [] \<longrightarrow>
           currentWordIndex e \<le> length (words e)
         \<and> (isPlaying e \<longrightarrow> currentWordIndex e < length (words e))
         \<and> (currentWordIndex e = length (words e) \<longleftrightarrow> wordDisplay e = finishedText))"

definition engine_inv :: "reader \<Rightarrow> bool" where
  "engine_inv e \<longleftrightarrow> timer_inv e \<and> position_inv e"

text \<open>
  Concrete readers: after the user has typed three words into the text area; that reader
  played to its end; with the text area cleared again; paused at the second word and then
  cleared; playing, at the second word; and the same at 200 words per minute.
\<close>

definition loaded :: reader where
  "loaded = run [TextInput (ascii ''alpha beta gamma'')] (new_RSVPReader page0)"

definition played_out :: reader where
  "played_out = run [ClickPlay, TimerFires, TimerFires, TimerFires] loaded"

definition cleared :: reader where
  "cleared = run [TextInput []] loaded"

definition paused_cleared :: reader where
  "paused_cleared = run [ClickPlay, TimerFires, ClickPause, TextInput []] loaded"

definition playing :: reader where
  "playing = run [ClickPlay, TimerFires] loaded"

definition playing_200 :: reader where
  "playing_200 = run [SliderInput (ascii ''200''), ClickPlay, TimerFires] loaded"

text \<open>
  The playing reader after its text area has been cleared; after two new words have arrived
  instead; and cleared, with the timer then firing once.
\<close>

definition emptied_playing :: reader where
  "emptied_playing = run [TextInput []] playing"

definition reloaded_playing :: reader where
  "reloaded_playing = run [TextInput (ascii ''delta epsilon'')] playing"

definition emptied_played_out :: reader where
  "emptied_played_out = run [TextInput [], TimerFires] playing"


section \<open>The tokenizer\<close>

lemma split_from_no_space:
  "\<forall>c \<in> set piece. \<not> is_space c \<Longrightarrow> w \<in> set (split_from piece s) \<Longrightarrow> c \<in> set w \<Longrightarrow> \<not> is_space c"
proof (induction piece s rule: split_from.induct)
  case (1 piece)
  then show ?case by auto
next
  case (2 piece c' cs)
  then show ?case by (auto split: if_splits)
qed

lemma dropWhile_none: "\<forall>c \<in> set w. \<not> P c \<Longrightarrow> dropWhile P w = w"
  by (cases w) auto

lemma trim_no_space: "\<forall>c \<in> set w. \<not> is_space c \<Longrightarrow> trim w = w"
  by (simp add: trim_def dropWhile_none)

lemma trim_blank: "trim s = [] \<longleftrightarrow> (\<forall>c \<in> set s. is_space c)"
proof
  assume "\<forall>c \<in> set s. is_space c"
  then show "trim s = []" by (auto simp: trim_def dest: set_dropWhileD)
next
  assume t: "trim s = []"
  show "\<forall>c \<in> set s. is_space c"
  proof (rule ccontr)
    assume "\<not> (\<forall>c \<in> set s. is_space c)"
    then have ne: "dropWhile is_space s \<noteq> []" by simp
    then have "\<not> is_space (hd (dropWhile is_space s))" by (simp add: hd_dropWhile)
    moreover have "hd (dropWhile is_space s) \<in> set (dropWhile is_space s)"
      using ne by simp
    moreover from t have "\<forall>c \<in> set (dropWhile is_space s). is_space c"
      by (simp add: trim_def)
    ultimately show False by blast
  qed
qed

lemma concat_split_from:
  "concat (split_from piece s) = rev piece @ filter (\<lambda>c. \<not> is_space c) s"
proof (induction piece s rule: split_from.induct)
  case (1 piece)
  then show ?case by simp
next
  case (2 piece c cs)
  have "filter (\<lambda>c. \<not> is_space c) (dropWhile is_space cs) = filter (\<lambda>c. \<not> is_space c) cs"
    by (induction cs) auto
  with 2 show ?case by auto
qed

lemma split_from_dropWhile:
  "filter (\<lambda>word. 0 < length word) (split_from [] (dropWhile is_space s))
   = filter (\<lambda>word. 0 < length word) (split_from [] s)"
  by (cases s) auto

lemma split_from_append:
  "is_space c \<Longrightarrow>
   filter (\<lambda>word. 0 < length word) (split_from piece (u @ c # v))
   = filter (\<lambda>word. 0 < length word) (split_from piece u)
     @ filter (\<lambda>word. 0 < length word) (split_from [] v)"
proof (induction u arbitrary: piece)
  case Nil
  then show ?case using split_from_dropWhile [of v] by simp
next
  case (Cons x u)
  show ?case
  proof (cases "is_space x")
    case True
    then show ?thesis
      using Cons.IH [OF Cons.prems, of "[]"] split_from_dropWhile [of "u @ c # v"]
        split_from_dropWhile [of u]
      by simp
  next
    case False
    then show ?thesis using Cons.IH [OF Cons.prems, of "x # piece"] by simp
  qed
qed

lemma split_from_word:
  "\<forall>c \<in> set w. \<not> is_space c \<Longrightarrow> split_from piece w = [rev piece @ w]"
  by (induction w arbitrary: piece) auto

lemma split_words_filter:
  "split_words text = filter (\<lambda>word. 0 < length word) (split_ws text)"
  unfolding split_words_def split_ws_def
  by (rule map_idI) (auto intro!: trim_no_space dest: split_from_no_space [rotated])

lemma tokenize_split_words: "tokenize text = split_words text"
proof (cases "text = [] \<or> trim text = []")
  case True
  then have blank: "\<forall>c \<in> set text. is_space c" by (auto simp: trim_blank)
  have "concat (split_ws text) = []"
    using blank by (simp add: split_ws_def concat_split_from del: concat_eq_Nil_conv)
  then have "filter (\<lambda>word. 0 < length word) (split_ws text) = []"
    by (auto simp: filter_empty_conv)
  with True show ?thesis by (simp add: tokenize_def split_words_filter)
next
  case False
  then show ?thesis by (simp add: tokenize_def)
qed


lemma tokenize_Nil_iff: "tokenize t = [] \<longleftrightarrow> (\<forall>c \<in> set t. is_space c)"
proof
  assume "tokenize t = []"
  then have "\<forall>w \<in> set (split_from [] t). w = []"
    by (simp add: tokenize_split_words split_words_filter split_ws_def filter_empty_conv)
  then have "concat (split_from [] t) = []" by simp
  then have "filter (\<lambda>c. \<not> is_space c) t = []"
    by (simp only: concat_split_from rev.simps append_Nil)
  then show "\<forall>c \<in> set t. is_space c" by (simp add: filter_empty_conv)
next
  assume "\<forall>c \<in> set t. is_space c"
  then show "tokenize t = []" by (simp add: tokenize_def trim_blank)
qed

text \<open>
  Claim C9. For every input text, the word sequence \<open>loadText\<close> installs splits the text on
  runs of whitespace: no word is empty and no word contains a whitespace character; an empty
  or whitespace-only text, and no other, gives the empty sequence (there is no error case);
  a text without whitespace is its own single word; a whitespace character between two texts separates
  their words; and the words, concatenated, are the text with its whitespace removed.
\<close>

theorem tokenize_whitespace_free:
  "(\<forall>w \<in> set (tokenize text). w \<noteq> [] \<and> (\<forall>c \<in> set w. \<not> is_space c))
   \<and> (tokenize text = [] \<longleftrightarrow> (\<forall>c \<in> set text. is_space c))
   \<and> (text \<noteq> [] \<and> (\<forall>c \<in> set text. \<not> is_space c) \<longrightarrow> tokenize text = [text])
   \<and> (is_space sep \<longrightarrow> tokenize (text @ sep # rest) = tokenize text @ tokenize rest)
   \<and> concat (tokenize text) = filter (\<lambda>c. \<not> is_space c) text
   \<and> words (loadText text e) = tokenize text"
proof (intro conjI ballI impI)
  fix w assume w: "w \<in> set (tokenize text)"
  then show "w \<noteq> []" by (auto simp: tokenize_split_words split_words_filter)
  fix c assume "c \<in> set w"
  with w show "\<not> is_space c"
    using split_from_no_space [of "[]" w "text" c]
    by (auto simp: tokenize_split_words split_words_filter split_ws_def)
next
  show "tokenize text = [] \<longleftrightarrow> (\<forall>c \<in> set text. is_space c)"
    by (rule tokenize_Nil_iff)
next
  assume "text \<noteq> [] \<and> (\<forall>c \<in> set text. \<not> is_space c)"
  then show "tokenize text = [text]"
    by (simp add: tokenize_split_words split_words_filter split_ws_def split_from_word)
next
  assume "is_space sep"
  then show "tokenize (text @ sep # rest) = tokenize text @ tokenize rest"
    using split_from_append [of sep "[]" "text" rest]
    by (simp add: tokenize_split_words split_words_filter split_ws_def)
next
  have "concat (filter (\<lambda>word. 0 < length word) xs) = concat xs" for xs :: "jsstring list"
    by (induction xs) auto
  then show "concat (tokenize text) = filter (\<lambda>c. \<not> is_space c) text"
    by (simp add: tokenize_split_words split_words_filter split_ws_def concat_split_from)
next
  show "words (loadText text e) = tokenize text"
    by (simp add: loadText_def tokenize_def updateWordCounter_def updateProgress_def Let_def)
qed

text \<open>
  The theorem of C9 at concrete texts, among them texts whose whitespace is a no-break
  space, an em space or a byte order mark.
\<close>

theorem tokenize_whitespace_free_witness:
  "tokenize (ascii '' alpha  beta '') = [ascii ''alpha'', ascii ''beta'']
   \<and> list_all (\<lambda>w. w \<noteq> [] \<and> list_all (\<lambda>c. \<not> is_space c) w)
        (tokenize (ascii '' alpha  beta ''))
   \<and> list_all is_space [0x20, 0x09, 0x0A]
   \<and> tokenize [0x20, 0x09, 0x0A] = []
   \<and> list_all is_space [0xA0, 0x2003, 0xFEFF]
   \<and> tokenize [0xA0, 0x2003, 0xFEFF] = []
   \<and> tokenize [] = []
   \<and> tokenize (ascii ''alpha'') = [ascii ''alpha'']
   \<and> is_space 0x0A
   \<and> tokenize (ascii ''a b'' @ 0x0A # ascii '' c'')
       = tokenize (ascii ''a b'') @ tokenize (ascii '' c'')
   \<and> is_space 0xA0
   \<and> tokenize (ascii ''alpha'' @ 0xA0 # ascii ''beta'') = [ascii ''alpha'', ascii ''beta'']"
proof -
  have sp: "\<forall>c \<in> set [0x20, 0x09, 0x0A]. is_space c"
    by (simp add: is_space_def)
  have usp: "\<forall>c \<in> set [0xA0, 0x2003, 0xFEFF]. is_space c"
    by (simp add: is_space_def)
  have nl: "is_space 0x0A" and nbsp: "is_space 0xA0"
    by (simp_all add: is_space_def)
  have w: "ascii ''alpha'' \<noteq> [] \<and> (\<forall>c \<in> set (ascii ''alpha''). \<not> is_space c)"
    by (simp add: is_space_def ascii_def)
  have w': "ascii ''beta'' \<noteq> [] \<and> (\<forall>c \<in> set (ascii ''beta''). \<not> is_space c)"
    by (simp add: is_space_def ascii_def)
  have "tokenize (ascii '' alpha  beta '') = [ascii ''alpha'', ascii ''beta'']"
    by (simp add: tokenize_def trim_def split_words_def split_ws_def is_space_def ascii_def)
  moreover have "list_all (\<lambda>w. w \<noteq> [] \<and> list_all (\<lambda>c. \<not> is_space c) w)
      (tokenize (ascii '' alpha  beta ''))"
    unfolding list_all_iff using tokenize_whitespace_free [of "ascii '' alpha  beta ''"] by blast
  moreover have "tokenize [0x20, 0x09, 0x0A] = []"
    using sp tokenize_whitespace_free [of "[0x20, 0x09, 0x0A]"] by blast
  moreover have "tokenize [0xA0, 0x2003, 0xFEFF] = []"
    using usp tokenize_whitespace_free [of "[0xA0, 0x2003, 0xFEFF]"] by blast
  moreover have "tokenize [] = []"
    using tokenize_whitespace_free [of "[]"] by simp
  moreover have one: "tokenize (ascii ''alpha'') = [ascii ''alpha'']"
    using w tokenize_whitespace_free [of "ascii ''alpha''"] by blast
  moreover have "tokenize (ascii ''a b'' @ 0x0A # ascii '' c'')
      = tokenize (ascii ''a b'') @ tokenize (ascii '' c'')"
    using nl tokenize_whitespace_free [of "ascii ''a b''" "0x0A" "ascii '' c''"] by blast
  moreover have "tokenize (ascii ''alpha'' @ 0xA0 # ascii ''beta'') = [ascii ''alpha'', ascii ''beta'']"
  proof -
    have "tokenize (ascii ''alpha'' @ 0xA0 # ascii ''beta'')
        = tokenize (ascii ''alpha'') @ tokenize (ascii ''beta'')"
      using nbsp tokenize_whitespace_free [of "ascii ''alpha''" "0xA0" "ascii ''beta''"] by blast
    moreover have "tokenize (ascii ''beta'') = [ascii ''beta'']"
      using w' tokenize_whitespace_free [of "ascii ''beta''"] by blast
    ultimately show ?thesis using one by simp
  qed
  moreover have "list_all is_space [0x20, 0x09, 0x0A]"
    using sp by (simp add: list_all_iff)
  moreover have "list_all is_space [0xA0, 0x2003, 0xFEFF]"
    using usp by (simp add: list_all_iff)
  ultimately show ?thesis
    using nl nbsp by blast
qed


section \<open>The playback engine\<close>

lemma displayWord_eq:
  "displayWord e =
     Some (if currentWordIndex e < length (words e)
           then (updateWordCounter (updateProgress (e\<lparr>wordDisplay := words e ! currentWordIndex e\<rparr>)))
                  \<lparr>fontSize := fontSizeFor (words e ! currentWordIndex e)\<rparr>
           else e)"
  by (simp add: displayWord_def element_def)

lemmas method_defs = pause_def play_def tick_def reset_def updateWPM_def loadText_def
  displayWord_eq updateWordCounter_def updateProgress_def setInterval_def clearInterval_def
  Let_def

lemma finishedText_not_word: "finishedText \<notin> set (tokenize t)"
proof
  assume "finishedText \<in> set (tokenize t)"
  moreover have "0x20 \<in> set finishedText" by (simp add: finishedText_def ascii_def)
  ultimately have "\<not> is_space 0x20"
    using split_from_no_space [of "[]" finishedText t "0x20"]
    by (simp add: tokenize_split_words split_words_filter split_ws_def)
  then show False by (simp add: is_space_def)
qed

lemma finishedText_not_nth:
  "finishedText \<notin> set ws \<Longrightarrow> i < length ws \<Longrightarrow> ws ! i \<noteq> finishedText"
  by (metis nth_mem)

lemma finishedText_neq: "readyText \<noteq> finishedText" "startText \<noteq> finishedText"
  by (simp_all add: readyText_def startText_def finishedText_def ascii_def)

subsection \<open>Fields after a method\<close>

lemma loadText_fields:
  "words (loadText t e) = tokenize t"
  "isPlaying (loadText t e) = isPlaying e"
  "intervalId (loadText t e) = intervalId e"
  "timers (loadText t e) = timers e"
  "nextTimerId (loadText t e) = nextTimerId e"
  "wpm (loadText t e) = wpm e"
  by (simp_all add: loadText_def tokenize_def updateWordCounter_def updateProgress_def Let_def)

lemma loadText_nonblank:
  assumes "tokenize t \<noteq> []"
  shows "currentWordIndex (loadText t e) = 0" and "wordDisplay (loadText t e) = readyText"
proof -
  from assms have "\<not> (t = [] \<or> trim t = [])" "split_words t \<noteq> []"
    by (auto simp: tokenize_def split: if_splits)
  then show "currentWordIndex (loadText t e) = 0" and "wordDisplay (loadText t e) = readyText"
    by (simp_all add: loadText_def updateWordCounter_def updateProgress_def Let_def)
qed

lemma play_fields:
  assumes "words e \<noteq> []"
  shows "fst (play e) = None"
    and "isPlaying (snd (play e))"
    and "words (snd (play e)) = words e"
    and "currentWordIndex (snd (play e))
         = (if length (words e) \<le> currentWordIndex e then 0 else currentWordIndex e)"
    and "wordDisplay (snd (play e)) = words e ! currentWordIndex (snd (play e))"
    and "intervalId (snd (play e)) = Some (nextTimerId e)"
    and "timers (snd (play e)) = timers e @ [(nextTimerId e, msPerWord (wpm e))]"
  using assms by (simp_all add: method_defs)

lemma pause_fields:
  "\<not> isPlaying (pause e)"
  "words (pause e) = words e"
  "currentWordIndex (pause e) = currentWordIndex e"
  "wordDisplay (pause e) = wordDisplay e"
  "wpm (pause e) = wpm e"
  by (simp_all add: pause_def clearInterval_def Let_def split: option.splits)

subsection \<open>The invariant\<close>

lemma pause_timer: "timer_inv e \<Longrightarrow> timer_inv (pause e)"
  by (auto simp: timer_inv_def live_handles_def pause_def clearInterval_def Let_def
      split: option.splits)

lemma play_timer: "timer_inv e \<Longrightarrow> \<not> isPlaying e \<Longrightarrow> timer_inv (snd (play e))"
  by (auto simp: timer_inv_def live_handles_def method_defs split: option.splits)

lemma reset_timer: "timer_inv e \<Longrightarrow> timer_inv (reset e)"
  using pause_timer [of e]
  by (simp add: timer_inv_def live_handles_def reset_def updateWordCounter_def
      updateProgress_def Let_def)

lemma loadText_timer: "timer_inv e \<Longrightarrow> timer_inv (loadText t e)"
  by (simp add: timer_inv_def live_handles_def loadText_def updateWordCounter_def
      updateProgress_def Let_def)

lemma tick_timer: "timer_inv e \<Longrightarrow> timer_inv (tick e)"
  using pause_timer [of "e\<lparr>currentWordIndex := Suc (currentWordIndex e)\<rparr>"]
  by (simp add: timer_inv_def live_handles_def tick_def displayWord_eq updateWordCounter_def
      updateProgress_def Let_def)

lemma updateWPM_timer: "timer_inv e \<Longrightarrow> timer_inv (snd (updateWPM v e))"
proof -
  assume t: "timer_inv e"
  let ?e2 = "e\<lparr>wpm := parseInt v, wpmValue := parseInt v\<rparr>"
  from t have t2: "timer_inv ?e2" by (simp add: timer_inv_def live_handles_def)
  have "timer_inv (snd (play (pause ?e2)))"
    by (rule play_timer [OF pause_timer [OF t2]])
       (simp add: pause_def clearInterval_def Let_def split: option.splits)
  with t2 show ?thesis by (simp add: updateWPM_def Let_def)
qed

lemma pause_position: "position_inv e \<Longrightarrow> position_inv (pause e)"
  by (simp add: position_inv_def pause_def clearInterval_def Let_def split: option.splits)

lemma play_position: "position_inv e \<Longrightarrow> position_inv (snd (play e))"
  by (auto simp: position_inv_def method_defs finishedText_not_nth)

lemma reset_position: "position_inv e \<Longrightarrow> position_inv (reset e)"
  using pause_position [of e] finishedText_neq
  by (auto simp: position_inv_def reset_def updateWordCounter_def updateProgress_def Let_def
      pause_fields)

lemma loadText_position: "position_inv e \<Longrightarrow> position_inv (loadText t e)"
proof -
  assume p: "position_inv e"
  have w: "words (loadText t e) = tokenize t" by (simp add: loadText_fields)
  show ?thesis
  proof (cases "tokenize t = []")
    case True
    with w show ?thesis by (simp add: position_inv_def)
  next
    case False
    then show ?thesis
      using finishedText_not_word [of t] finishedText_neq
      by (simp add: position_inv_def w loadText_nonblank)
  qed
qed

lemma tick_position: "position_inv e \<Longrightarrow> isPlaying e \<Longrightarrow> position_inv (tick e)"
  by (auto simp: position_inv_def tick_def pause_def clearInterval_def displayWord_eq
      updateWordCounter_def updateProgress_def Let_def finishedText_not_nth
      split: option.splits)

lemma updateWPM_position: "position_inv e \<Longrightarrow> position_inv (snd (updateWPM v e))"
proof -
  assume p: "position_inv e"
  let ?e2 = "e\<lparr>wpm := parseInt v, wpmValue := parseInt v\<rparr>"
  from p have p2: "position_inv ?e2" by (simp add: position_inv_def)
  have "position_inv (snd (play (pause ?e2)))"
    by (rule play_position [OF pause_position [OF p2]])
  with p2 show ?thesis by (simp add: updateWPM_def Let_def)
qed

lemma loaded_eq:
  "loaded = \<lparr>words = [ascii ''alpha'', ascii ''beta'', ascii ''gamma''], currentWordIndex = 0, isPlaying = False,
      intervalId = None, wpm = Num 250, wordDisplay = readyText, fontSize = 7 / 2,
      playBtnDisabled = False, pauseBtnDisabled = False, progressWidth = 0,
      wordCounter = (0, 3), wpmValue = NaN, timers = [], nextTimerId = 1\<rparr>"
  by (simp add: loaded_def new_RSVPReader_def init_def loadSampleText_def page0_def loadText_def
      split_words_def split_ws_def updateWordCounter_def updateProgress_def Let_def trim_def
      is_space_def ascii_def)


lemma new_RSVPReader_inv:
  assumes "timers page = []" and "0 < nextTimerId page"
  shows "engine_inv (new_RSVPReader page)"
proof -
  let ?e = "page\<lparr>words := [], currentWordIndex := 0, isPlaying := False,
                intervalId := None, wpm := Num 250\<rparr>"
  from assms have "timer_inv ?e" by (simp add: timer_inv_def live_handles_def)
  moreover have "position_inv ?e" by (simp add: position_inv_def)
  ultimately show ?thesis
    by (simp add: engine_inv_def new_RSVPReader_def init_def loadSampleText_def
        loadText_timer loadText_position)
qed

lemma dispatch_inv:
  assumes "engine_inv e"
  shows "engine_inv (dispatch ev e)"
proof -
  from assms have t: "timer_inv e" and p: "position_inv e" by (simp_all add: engine_inv_def)
  show ?thesis
  proof (cases ev)
    case ClickPlay
    show ?thesis
    proof (cases "playBtnDisabled e")
      case True
      with ClickPlay assms show ?thesis by simp
    next
      case False
      with t have "\<not> isPlaying e" by (auto simp: timer_inv_def)
      with ClickPlay False t p show ?thesis
        by (simp add: engine_inv_def play_timer play_position)
    qed
  next
    case TimerFires
    show ?thesis
    proof (cases "timers e = []")
      case True
      with TimerFires assms show ?thesis by simp
    next
      case False
      with t have "isPlaying e"
        by (auto simp: timer_inv_def live_handles_def split: option.splits)
      with TimerFires False t p show ?thesis
        by (simp add: engine_inv_def tick_timer tick_position)
    qed
  qed (use t p in \<open>simp_all add: engine_inv_def pause_timer pause_position reset_timer
      reset_position updateWPM_timer updateWPM_position loadText_timer loadText_position\<close>)
qed

lemma reachable_inv: "reachable e \<Longrightarrow> engine_inv e"
  by (induction rule: reachable.induct) (simp_all add: new_RSVPReader_inv dispatch_inv)

lemma reachable_run: "reachable e \<Longrightarrow> reachable (run evs e)"
  by (induction evs arbitrary: e) (simp_all add: reachable.step)

lemma reachable_page0: "reachable (new_RSVPReader page0)"
  by (rule reachable.start) (simp_all add: page0_def)

lemma reachable_loaded: "reachable loaded"
  unfolding loaded_def by (rule reachable_run [OF reachable_page0])

lemmas eval_defs = method_defs split_words_def split_ws_def msPerWord_def is_space_def
  trim_def ascii_def
  finishedText_def readyText_def startText_def fontSizeFor_def

lemmas parse_only_defs = parseInt_def is_digit_def digit_value_def digits_value_def upt_rec

lemmas parse_defs = parse_only_defs is_space_def ascii_def

subsection \<open>Concrete runs\<close>

lemma parse_400: "parseInt (ascii ''400'') = Num 400"
  by (simp add: parse_defs)

lemma parse_5000: "parseInt (ascii ''5000'') = Num 5000"
  by (simp add: parse_defs)

lemma parse_minus_100: "parseInt (ascii ''-100'') = Num (- 100)"
  by (simp add: parse_defs)

lemma tokenize_delta: "tokenize (ascii ''delta'') = [ascii ''delta'']"
  by (simp add: tokenize_def split_words_def split_ws_def trim_def is_space_def ascii_def)

lemma played_out_eq:
  "played_out =
     \<lparr>words = [ascii ''alpha'', ascii ''beta'', ascii ''gamma''], currentWordIndex = 3,
      isPlaying = False, intervalId = None, wpm = Num 250, wordDisplay = finishedText,
      fontSize = 7 / 2, playBtnDisabled = False, pauseBtnDisabled = True,
      progressWidth = 200 / 3, wordCounter = (2, 3), wpmValue = NaN,
      timers = [], nextTimerId = 2\<rparr>"
  by (simp add: played_out_def loaded_eq eval_defs)

lemma cleared_eq:
  "cleared =
     \<lparr>words = [], currentWordIndex = 0, isPlaying = False,
      intervalId = None, wpm = Num 250, wordDisplay = readyText, fontSize = 7 / 2,
      playBtnDisabled = False, pauseBtnDisabled = False, progressWidth = 0,
      wordCounter = (0, 0), wpmValue = NaN, timers = [], nextTimerId = 1\<rparr>"
  by (simp add: cleared_def loaded_eq eval_defs)

lemma paused_cleared_eq:
  "paused_cleared =
     \<lparr>words = [], currentWordIndex = 1, isPlaying = False,
      intervalId = None, wpm = Num 250, wordDisplay = ascii ''beta'', fontSize = 7 / 2,
      playBtnDisabled = False, pauseBtnDisabled = True, progressWidth = 100 / 3,
      wordCounter = (1, 0), wpmValue = NaN, timers = [], nextTimerId = 2\<rparr>"
  by (simp add: paused_cleared_def loaded_eq eval_defs)

lemma playing_eq:
  "playing =
     \<lparr>words = [ascii ''alpha'', ascii ''beta'', ascii ''gamma''], currentWordIndex = 1,
      isPlaying = True, intervalId = Some 1, wpm = Num 250, wordDisplay = ascii ''beta'',
      fontSize = 7 / 2, playBtnDisabled = True, pauseBtnDisabled = False,
      progressWidth = 100 / 3, wordCounter = (1, 3), wpmValue = NaN,
      timers = [(1, Num 240)], nextTimerId = 2\<rparr>"
  by (simp add: playing_def loaded_eq eval_defs)

lemma playing_200_eq:
  "playing_200 =
     \<lparr>words = [ascii ''alpha'', ascii ''beta'', ascii ''gamma''], currentWordIndex = 1,
      isPlaying = True, intervalId = Some 1, wpm = Num 200, wordDisplay = ascii ''beta'',
      fontSize = 7 / 2, playBtnDisabled = True, pauseBtnDisabled = False,
      progressWidth = 100 / 3, wordCounter = (1, 3), wpmValue = Num 200,
      timers = [(1, Num 300)], nextTimerId = 2\<rparr>"
  by (simp add: playing_200_def loaded_eq eval_defs parse_only_defs)

lemma reachable_concrete:
  "reachable played_out" "reachable cleared" "reachable paused_cleared"
  "reachable playing" "reachable playing_200"
  unfolding played_out_def cleared_def paused_cleared_def playing_def playing_200_def
  by (rule reachable_run [OF reachable_loaded])+

lemma reachable_after_playing:
  "reachable emptied_playing" "reachable reloaded_playing" "reachable emptied_played_out"
  unfolding emptied_playing_def reloaded_playing_def emptied_played_out_def
  by (rule reachable_run [OF reachable_concrete(4)])+

lemma emptied_playing_eq:
  "emptied_playing =
     \<lparr>words = [], currentWordIndex = 1,
      isPlaying = True, intervalId = Some 1, wpm = Num 250, wordDisplay = ascii ''beta'',
      fontSize = 7 / 2, playBtnDisabled = True, pauseBtnDisabled = False,
      progressWidth = 100 / 3, wordCounter = (1, 0), wpmValue = NaN,
      timers = [(1, Num 240)], nextTimerId = 2\<rparr>"
  unfolding emptied_playing_def playing_eq by (simp add: eval_defs)

lemma reloaded_playing_eq:
  "reloaded_playing =
     \<lparr>words = [ascii ''delta'', ascii ''epsilon''], currentWordIndex = 0,
      isPlaying = True, intervalId = Some 1, wpm = Num 250, wordDisplay = readyText,
      fontSize = 7 / 2, playBtnDisabled = True, pauseBtnDisabled = False,
      progressWidth = 0, wordCounter = (0, 2), wpmValue = NaN,
      timers = [(1, Num 240)], nextTimerId = 2\<rparr>"
  unfolding reloaded_playing_def playing_eq by (simp add: eval_defs)

lemma emptied_played_out_eq:
  "emptied_played_out =
     \<lparr>words = [], currentWordIndex = 2,
      isPlaying = False, intervalId = None, wpm = Num 250, wordDisplay = finishedText,
      fontSize = 7 / 2, playBtnDisabled = False, pauseBtnDisabled = True,
      progressWidth = 100 / 3, wordCounter = (1, 0), wpmValue = NaN,
      timers = [], nextTimerId = 2\<rparr>"
  unfolding emptied_played_out_def playing_eq by (simp add: eval_defs)

subsection \<open>Position bounds\<close>

text \<open>
  Claim C1, as amended. In every reachable state whose word sequence is not empty (be it
  reached by load, play, pause, reset, a rate change or a timer tick), the position is at
  most the length of the sequence; it equals the length in the Finished state and in no
  other; and while the reader plays it is below the length.
\<close>

theorem position_within_bounds:
  assumes "reachable e" and "words e \<noteq> []"
  shows "currentWordIndex e \<le> length (words e)
    \<and> (currentWordIndex e = length (words e) \<longleftrightarrow> finished e)
    \<and> (isPlaying e \<longrightarrow> currentWordIndex e < length (words e))"
  using reachable_inv [OF assms(1)] assms(2)
  by (auto simp: engine_inv_def position_inv_def finished_def)

text \<open>
  The theorem of C1 after three words have been played to the end, and during playback at
  the second word.
\<close>

theorem position_within_bounds_witness:
  "reachable played_out
   \<and> words played_out \<noteq> []
   \<and> currentWordIndex played_out = 3
   \<and> length (words played_out) = 3
   \<and> finished played_out
   \<and> reachable playing
   \<and> words playing \<noteq> []
   \<and> isPlaying playing
   \<and> currentWordIndex playing < length (words playing)"
proof -
  have p: "words playing \<noteq> []" "isPlaying playing" unfolding playing_eq by simp_all
  from position_within_bounds [OF reachable_concrete(4) p(1)] p(2)
  have q: "currentWordIndex playing < length (words playing)" by blast
  have w: "words played_out \<noteq> []" unfolding played_out_eq by simp
  have i: "currentWordIndex played_out = 3" "length (words played_out) = 3"
    unfolding played_out_eq by simp_all
  from position_within_bounds [OF reachable_concrete(1) w] i have "finished played_out"
    by simp
  with reachable_concrete(1,4) w i p q show ?thesis by blast
qed

text \<open>
  Claim C1 as stated fails with an empty sequence. After the text area is cleared the position
  equals the length, 0, in a reader that has not finished; and clearing it after a pause at
  the second word leaves the position, 1, above the length, 0.
\<close>

theorem position_bound_counterexample:
  "reachable cleared
   \<and> currentWordIndex cleared = length (words cleared)
   \<and> \<not> finished cleared
   \<and> reachable paused_cleared
   \<and> length (words paused_cleared) < currentWordIndex paused_cleared"
proof -
  have "\<not> finished cleared"
    unfolding cleared_eq by (simp add: finished_def readyText_def finishedText_def ascii_def)
  moreover have "currentWordIndex cleared = length (words cleared)"
    unfolding cleared_eq by simp
  moreover have "length (words paused_cleared) < currentWordIndex paused_cleared"
    unfolding paused_cleared_eq by simp
  ultimately show ?thesis
    using reachable_concrete(2,3) by blast
qed

subsection \<open>Loading\<close>

text \<open>
  Claim C2, as amended. For every prior state, \<open>loadText\<close> returns a state (it has no error
  case, also for an empty text) whose word sequence is the tokenized text; it leaves the
  playing flag, the timer handle and the host's timers as they were, so a reader that was not
  playing stays so and a running timer keeps running; and when the new sequence is not empty
  the position is 0 and the display shows the ready message.
\<close>

theorem loadText_effect:
  "words (loadText t e) = tokenize t
   \<and> isPlaying (loadText t e) = isPlaying e
   \<and> intervalId (loadText t e) = intervalId e
   \<and> timers (loadText t e) = timers e
   \<and> (tokenize t \<noteq> [] \<longrightarrow>
        currentWordIndex (loadText t e) = 0 \<and> wordDisplay (loadText t e) = readyText)"
  by (simp add: loadText_fields loadText_nonblank)

text \<open>The theorem of C2 for a one-word text loaded into the reader that has played out.\<close>

theorem loadText_effect_witness:
  "tokenize (ascii ''delta'') \<noteq> []
   \<and> words (loadText (ascii ''delta'') played_out) = [ascii ''delta'']
   \<and> currentWordIndex played_out = 3
   \<and> currentWordIndex (loadText (ascii ''delta'') played_out) = 0
   \<and> wordDisplay (loadText (ascii ''delta'') played_out) = readyText
   \<and> isPlaying (loadText (ascii ''delta'') played_out) = False
   \<and> timers (loadText (ascii ''delta'') played_out) = []"
proof -
  have ne: "tokenize (ascii ''delta'') \<noteq> []" by (simp add: tokenize_delta)
  have f: "currentWordIndex played_out = 3" "isPlaying played_out = False"
    "timers played_out = []"
    unfolding played_out_eq by simp_all
  from loadText_effect [of "ascii ''delta''" played_out] ne f show ?thesis
    by (simp add: tokenize_delta)
qed

text \<open>
  Claim C2 as stated fails: loading into the playing reader, a text or the empty text, leaves
  it playing with its timer live.
\<close>

theorem load_keeps_playing_counterexample:
  "reachable playing
   \<and> isPlaying playing
   \<and> isPlaying (loadText (ascii ''delta'') playing)
   \<and> intervalId (loadText (ascii ''delta'') playing) = Some 1
   \<and> timers (loadText (ascii ''delta'') playing) = [(1, Num 240)]
   \<and> isPlaying (loadText [] playing)
   \<and> timers (loadText [] playing) = [(1, Num 240)]"
proof -
  have "isPlaying playing" "intervalId playing = Some 1" "timers playing = [(1, Num 240)]"
    unfolding playing_eq by simp_all
  then show ?thesis
    using reachable_concrete(4) by (simp add: loadText_fields)
qed

subsection \<open>The timer\<close>

text \<open>
  Claim C8, as amended. In every reachable state a timer is live exactly when the reader is
  playing; when it plays exactly one handle is live, the one it holds, and otherwise it
  holds none; \<open>pause\<close> and \<open>reset\<close> return with no timer live and no handle held;
  \<open>loadText\<close> leaves the timers and the handle as they were.
\<close>

theorem timer_live_iff_playing:
  assumes "reachable e"
  shows "(timers e \<noteq> [] \<longleftrightarrow> isPlaying e)
    \<and> (isPlaying e \<longrightarrow> (\<exists>i. intervalId e = Some i \<and> live_handles e = [i]))
    \<and> (\<not> isPlaying e \<longrightarrow> intervalId e = None \<and> live_handles e = [])
    \<and> timers (pause e) = [] \<and> intervalId (pause e) = None \<and> \<not> isPlaying (pause e)
    \<and> timers (reset e) = [] \<and> intervalId (reset e) = None \<and> \<not> isPlaying (reset e)
    \<and> timers (loadText t e) = timers e \<and> intervalId (loadText t e) = intervalId e"
proof -
  have inv: "engine_inv e" by (rule reachable_inv [OF assms])
  from inv have "timer_inv (pause e)" by (simp add: engine_inv_def pause_timer)
  then have p: "timers (pause e) = [] \<and> intervalId (pause e) = None \<and> \<not> isPlaying (pause e)"
    using pause_fields(1) [of e] by (auto simp: timer_inv_def live_handles_def)
  have r: "timers (reset e) = timers (pause e) \<and> intervalId (reset e) = intervalId (pause e)
      \<and> isPlaying (reset e) = isPlaying (pause e)"
    by (simp add: reset_def updateWordCounter_def updateProgress_def Let_def)
  from inv have "(timers e \<noteq> [] \<longleftrightarrow> isPlaying e)
    \<and> (isPlaying e \<longrightarrow> (\<exists>i. intervalId e = Some i \<and> live_handles e = [i]))
    \<and> (\<not> isPlaying e \<longrightarrow> intervalId e = None \<and> live_handles e = [])"
    by (auto simp: engine_inv_def timer_inv_def live_handles_def split: option.splits)
  with p r show ?thesis by (simp add: loadText_fields)
qed

text \<open>The theorem of C8 at the playing reader and at the one that has played out.\<close>

theorem timer_live_iff_playing_witness:
  "reachable playing
   \<and> isPlaying playing
   \<and> intervalId playing = Some 1
   \<and> live_handles playing = [1]
   \<and> timers (pause playing) = []
   \<and> timers (reset playing) = []
   \<and> reachable played_out
   \<and> \<not> isPlaying played_out
   \<and> live_handles played_out = []"
proof -
  have a: "isPlaying playing" "intervalId playing = Some 1"
    unfolding playing_eq by simp_all
  have b: "\<not> isPlaying played_out"
    unfolding played_out_eq by simp
  from timer_live_iff_playing [OF reachable_concrete(4)] a
  have "live_handles playing = [1]" "timers (pause playing) = []" "timers (reset playing) = []"
    by auto
  moreover from timer_live_iff_playing [OF reachable_concrete(1)] b
  have "live_handles played_out = []" by blast
  ultimately show ?thesis using a b reachable_concrete(1,4) by blast
qed

text \<open>
  Claim C8 as stated fails for load: after new text arrives while the reader plays, the
  display shows the ready message at position 0 and the timer of the interrupted playback
  is still live.
\<close>

theorem load_keeps_timer_counterexample:
  "reachable (dispatch (TextInput (ascii ''delta'')) playing)
   \<and> live_handles playing = [1]
   \<and> live_handles (dispatch (TextInput (ascii ''delta'')) playing) = [1]
   \<and> wordDisplay (dispatch (TextInput (ascii ''delta'')) playing) = readyText
   \<and> currentWordIndex (dispatch (TextInput (ascii ''delta'')) playing) = 0"
proof -
  have "reachable (dispatch (TextInput (ascii ''delta'')) playing)"
    by (rule reachable.step [OF reachable_concrete(4)])
  moreover have "live_handles playing = [1]"
    unfolding playing_eq by (simp add: live_handles_def)
  moreover have "tokenize (ascii ''delta'') \<noteq> []" by (simp add: tokenize_delta)
  ultimately show ?thesis
    by (simp add: live_handles_def loadText_fields loadText_nonblank)
qed

subsection \<open>Changing the rate\<close>

text \<open>
  Claim C3, as amended. For every reachable playing state and every value, \<open>updateWPM\<close> is
  \<open>pause\<close> followed by \<open>play\<close> on the state with the new rate, from the same position,
  and leaves the position and the word sequence, hence the current word, as they were. With a
  non-empty sequence the reader then plays, the display shows the current word (as before the
  call, if it showed the current word then), the one live timer is a new one whose delay is
  that of the new rate, and its next tick moves to the position after the current one, as
  the next tick would have without the call. With an empty sequence \<open>play\<close> reports
  \<open>EmptySequence\<close> and the reader is left stopped, with no timer.
\<close>

theorem updateWPM_keeps_position:
  assumes "reachable e" and "isPlaying e"
  shows "currentWordIndex (snd (updateWPM v e)) = currentWordIndex e
    \<and> words (snd (updateWPM v e)) = words e
    \<and> updateWPM v e = play (pause (e\<lparr>wpm := parseInt v, wpmValue := parseInt v\<rparr>))
    \<and> currentWordIndex (pause (e\<lparr>wpm := parseInt v, wpmValue := parseInt v\<rparr>))
        = currentWordIndex e
    \<and> (words e \<noteq> [] \<longrightarrow>
          fst (updateWPM v e) = None
        \<and> isPlaying (snd (updateWPM v e))
        \<and> wordDisplay (snd (updateWPM v e)) = words e ! currentWordIndex e
        \<and> (wordDisplay e = words e ! currentWordIndex e \<longrightarrow>
              wordDisplay (snd (updateWPM v e)) = wordDisplay e)
        \<and> intervalId (snd (updateWPM v e)) = Some (nextTimerId e)
        \<and> timers (snd (updateWPM v e)) = [(nextTimerId e, msPerWord (parseInt v))]
        \<and> currentWordIndex (tick (snd (updateWPM v e))) = Suc (currentWordIndex e)
        \<and> currentWordIndex (tick e) = Suc (currentWordIndex e))
    \<and> (words e = [] \<longrightarrow>
          fst (updateWPM v e) = Some EmptySequence
        \<and> \<not> isPlaying (snd (updateWPM v e))
        \<and> intervalId (snd (updateWPM v e)) = None
        \<and> timers (snd (updateWPM v e)) = [])"
proof -
  have inv: "engine_inv e" by (rule reachable_inv [OF assms(1)])
  with assms(2) obtain i ms where i: "intervalId e = Some i" "0 < i" "timers e = [(i, ms)]"
    by (cases "timers e"; cases "intervalId e")
       (auto simp: engine_inv_def timer_inv_def live_handles_def)
  from inv assms(2) have lt: "words e \<noteq> [] \<Longrightarrow> currentWordIndex e < length (words e)"
    by (simp add: engine_inv_def position_inv_def)
  show ?thesis
  proof (cases "words e = []")
    case True
    then show ?thesis using i assms(2) by (simp add: method_defs)
  next
    case False
    with lt have "currentWordIndex e < length (words e)" by simp
    with False show ?thesis using i assms(2) by (simp add: method_defs)
  qed
qed

text \<open>
  The theorem of C3 in the reader playing at 200 words per minute, after its first tick, when
  the rate becomes 400; and in the playing reader whose text area has been cleared.
\<close>

theorem updateWPM_keeps_position_witness:
  "reachable playing_200
   \<and> isPlaying playing_200
   \<and> words playing_200 \<noteq> []
   \<and> timers playing_200 = [(1, Num 300)]
   \<and> currentWordIndex playing_200 = 1
   \<and> wordDisplay playing_200 = ascii ''beta''
   \<and> currentWordIndex (snd (updateWPM (ascii ''400'') playing_200)) = 1
   \<and> wordDisplay (snd (updateWPM (ascii ''400'') playing_200)) = ascii ''beta''
   \<and> timers (snd (updateWPM (ascii ''400'') playing_200)) = [(2, Num 150)]
   \<and> currentWordIndex (tick (snd (updateWPM (ascii ''400'') playing_200))) = 2
   \<and> reachable emptied_playing
   \<and> isPlaying emptied_playing
   \<and> words emptied_playing = []
   \<and> currentWordIndex emptied_playing = 1
   \<and> currentWordIndex (snd (updateWPM (ascii ''400'') emptied_playing)) = 1
   \<and> fst (updateWPM (ascii ''400'') emptied_playing) = Some EmptySequence
   \<and> timers (snd (updateWPM (ascii ''400'') emptied_playing)) = []"
proof -
  have p: "isPlaying playing_200" unfolding playing_200_eq by simp
  have f: "words playing_200 \<noteq> []" "currentWordIndex playing_200 = 1"
    "nextTimerId playing_200 = 2" "words playing_200 ! currentWordIndex playing_200 = ascii ''beta''"
    "timers playing_200 = [(1, Num 300)]" "wordDisplay playing_200 = ascii ''beta''"
    unfolding playing_200_eq by simp_all
  have m: "msPerWord (parseInt (ascii ''400'')) = Num 150"
    by (simp add: parse_400 msPerWord_def)
  note t = updateWPM_keeps_position [OF reachable_concrete(5) p, of "ascii ''400''"]
  from t have "currentWordIndex (snd (updateWPM (ascii ''400'') playing_200))
      = currentWordIndex playing_200"
    by blast
  moreover from t f(1)
  have "wordDisplay (snd (updateWPM (ascii ''400'') playing_200))
      = words playing_200 ! currentWordIndex playing_200"
    and "timers (snd (updateWPM (ascii ''400'') playing_200))
      = [(nextTimerId playing_200, msPerWord (parseInt (ascii ''400'')))]"
    and "currentWordIndex (tick (snd (updateWPM (ascii ''400'') playing_200)))
      = Suc (currentWordIndex playing_200)"
    by blast+
  ultimately have first:
    "currentWordIndex (snd (updateWPM (ascii ''400'') playing_200)) = 1
     \<and> wordDisplay (snd (updateWPM (ascii ''400'') playing_200)) = ascii ''beta''
     \<and> timers (snd (updateWPM (ascii ''400'') playing_200)) = [(2, Num 150)]
     \<and> currentWordIndex (tick (snd (updateWPM (ascii ''400'') playing_200))) = 2"
    using f m by simp
  have q: "isPlaying emptied_playing" "words emptied_playing = []"
    "currentWordIndex emptied_playing = 1"
    unfolding emptied_playing_eq by simp_all
  note u = updateWPM_keeps_position [OF reachable_after_playing(1) q(1), of "ascii ''400''"]
  from u have "currentWordIndex (snd (updateWPM (ascii ''400'') emptied_playing))
      = currentWordIndex emptied_playing"
    by blast
  with q(3) have "currentWordIndex (snd (updateWPM (ascii ''400'') emptied_playing)) = 1"
    by simp
  moreover from u q(2)
  have "fst (updateWPM (ascii ''400'') emptied_playing) = Some EmptySequence"
    and "timers (snd (updateWPM (ascii ''400'') emptied_playing)) = []"
    by blast+
  ultimately show ?thesis
    using first f p q reachable_concrete(5) reachable_after_playing(1) by blast
qed

text \<open>
  Claim C3 as stated fails in two reachable playing states. After the text area has been
  cleared during playback, a rate change stops the reader: \<open>play\<close> reports
  \<open>EmptySequence\<close> and no timer is left. After new text has arrived during playback, a rate
  change replaces the ready message on the display by the first word.
\<close>

theorem updateWPM_stops_or_redisplays_counterexample:
  "reachable emptied_playing
   \<and> isPlaying emptied_playing
   \<and> timers emptied_playing = [(1, Num 240)]
   \<and> fst (updateWPM (ascii ''400'') emptied_playing) = Some EmptySequence
   \<and> \<not> isPlaying (snd (updateWPM (ascii ''400'') emptied_playing))
   \<and> timers (snd (updateWPM (ascii ''400'') emptied_playing)) = []
   \<and> reachable reloaded_playing
   \<and> isPlaying reloaded_playing
   \<and> wordDisplay reloaded_playing = readyText
   \<and> wordDisplay (snd (updateWPM (ascii ''400'') reloaded_playing)) = ascii ''delta''
   \<and> readyText \<noteq> ascii ''delta''"
proof -
  have "fst (updateWPM (ascii ''400'') emptied_playing) = Some EmptySequence
     \<and> \<not> isPlaying (snd (updateWPM (ascii ''400'') emptied_playing))
     \<and> timers (snd (updateWPM (ascii ''400'') emptied_playing)) = []
     \<and> isPlaying emptied_playing
     \<and> timers emptied_playing = [(1, Num 240)]"
    unfolding emptied_playing_eq by (simp add: method_defs)
  moreover have "isPlaying reloaded_playing
     \<and> wordDisplay reloaded_playing = readyText
     \<and> wordDisplay (snd (updateWPM (ascii ''400'') reloaded_playing)) = ascii ''delta''"
    unfolding reloaded_playing_eq by (simp add: method_defs)
  moreover have "readyText \<noteq> ascii ''delta''"
    by (simp add: readyText_def ascii_def)
  ultimately show ?thesis
    using reachable_after_playing(1,2) by blast
qed

subsection \<open>The interval\<close>

text \<open>
  Claim C4, as amended. For every rate \<open>r\<close> other than 0, positive or negative, the delay
  computed for the timer is \<open>60000 / r\<close> milliseconds per word; for the rate 0 it is infinite.
  The computation has no failure: whatever the rate, \<open>play\<close> on a non-empty sequence
  reports nothing and schedules its timer with the delay computed from the current rate.
\<close>

theorem msPerWord_value:
  "(r \<noteq> 0 \<longrightarrow> msPerWord (Num r) = Num (60000 / r))
   \<and> msPerWord (Num 0) = Infinity
   \<and> (words e \<noteq> [] \<longrightarrow>
        fst (play e) = None
      \<and> timers (snd (play e)) = timers e @ [(nextTimerId e, msPerWord (wpm e))])"
  by (simp add: msPerWord_def play_fields)

text \<open>The theorem of C4 at the initial rate, 250 words per minute.\<close>

theorem msPerWord_value_witness:
  "(250 :: rat) \<noteq> 0 \<and> msPerWord (Num 250) = Num 240
   \<and> words loaded \<noteq> [] \<and> wpm loaded = Num 250
   \<and> fst (play loaded) = None \<and> timers (snd (play loaded)) = [(1, Num 240)]"
proof -
  have f: "words loaded \<noteq> []" "wpm loaded = Num 250" "timers loaded = []" "nextTimerId loaded = 1"
    unfolding loaded_eq by simp_all
  have "msPerWord (Num 250) = Num 240"
    using msPerWord_value [of 250 loaded] by simp
  with f msPerWord_value [of 250 loaded] show ?thesis by simp
qed

text \<open>
  Claim C4 as stated fails for rates that are not positive: after the rate is set to -100 the
  delay is -600 and after it is set to 0 the delay is infinite, and \<open>play\<close> reports no
  failure and schedules a timer with that delay.
\<close>

theorem msPerWord_nonpositive_counterexample:
  "wpm (snd (updateWPM (ascii ''-100'') loaded)) = Num (- 100)
   \<and> msPerWord (Num (- 100)) = Num (- 600)
   \<and> fst (play (snd (updateWPM (ascii ''-100'') loaded))) = None
   \<and> timers (snd (play (snd (updateWPM (ascii ''-100'') loaded)))) = [(1, Num (- 600))]
   \<and> wpm (snd (updateWPM (ascii ''0'') loaded)) = Num 0
   \<and> fst (play (snd (updateWPM (ascii ''0'') loaded))) = None
   \<and> timers (snd (play (snd (updateWPM (ascii ''0'') loaded)))) = [(1, Infinity)]"
  unfolding loaded_eq by (simp add: eval_defs parse_only_defs)

text \<open>
  Claim C7, as amended. For every state and every value, \<open>updateWPM\<close> makes the number
  parsed from the value the rate, and shows it on the rate label, whatever it is: there are no
  bounds and no rejection. When the reader is not playing nothing else changes and nothing is
  reported; when it plays, playback is paused and started again.
\<close>

theorem updateWPM_sets_rate:
  "wpm (snd (updateWPM v e)) = parseInt v
   \<and> wpmValue (snd (updateWPM v e)) = parseInt v
   \<and> (\<not> isPlaying e \<longrightarrow> updateWPM v e = (None, e\<lparr>wpm := parseInt v, wpmValue := parseInt v\<rparr>))
   \<and> (isPlaying e \<longrightarrow> updateWPM v e = play (pause (e\<lparr>wpm := parseInt v, wpmValue := parseInt v\<rparr>)))
   \<and> fst (updateWPM v e) \<noteq> Some TypeError"
proof -
  let ?e2 = "e\<lparr>wpm := parseInt v, wpmValue := parseInt v\<rparr>"
  have u: "updateWPM v e = (if isPlaying e then play (pause ?e2) else (None, ?e2))"
    by (simp add: updateWPM_def Let_def)
  have p: "wpm (snd (play x)) = wpm x \<and> wpmValue (snd (play x)) = wpmValue x
      \<and> fst (play x) \<noteq> Some TypeError" for x
    by (simp add: method_defs)
  have q: "wpm (pause ?e2) = parseInt v \<and> wpmValue (pause ?e2) = parseInt v"
    by (simp add: pause_def clearInterval_def Let_def split: option.splits)
  show ?thesis
    unfolding u using p [of "pause ?e2"] q by simp
qed

text \<open>The theorem of C7 at the loaded and at the playing reader.\<close>

theorem updateWPM_sets_rate_witness:
  "\<not> isPlaying loaded
   \<and> wpm loaded = Num 250
   \<and> wpm (snd (updateWPM (ascii ''400'') loaded)) = Num 400
   \<and> fst (updateWPM (ascii ''400'') loaded) = None
   \<and> isPlaying playing
   \<and> wpm (snd (updateWPM (ascii ''400'') playing)) = Num 400"
proof -
  have a: "\<not> isPlaying loaded" "wpm loaded = Num 250" unfolding loaded_eq by simp_all
  have b: "isPlaying playing" unfolding playing_eq by simp
  from updateWPM_sets_rate [of "ascii ''400''" loaded] a
  have "wpm (snd (updateWPM (ascii ''400'') loaded)) = Num 400" "fst (updateWPM (ascii ''400'') loaded) = None"
    by (simp_all add: parse_400)
  moreover from updateWPM_sets_rate [of "ascii ''400''" playing]
  have "wpm (snd (updateWPM (ascii ''400'') playing)) = Num 400"
    by (simp add: parse_400)
  ultimately show ?thesis using a b by blast
qed

text \<open>
  Claim C7 as stated fails: 5000 and -100 words per minute, and a value that is no number,
  are accepted without any report and become the rate in place of 250.
\<close>

theorem updateWPM_out_of_range_counterexample:
  "wpm loaded = Num 250
   \<and> fst (updateWPM (ascii ''5000'') loaded) = None
   \<and> wpm (snd (updateWPM (ascii ''5000'') loaded)) = Num 5000
   \<and> fst (updateWPM (ascii ''-100'') loaded) = None
   \<and> wpm (snd (updateWPM (ascii ''-100'') loaded)) = Num (- 100)
   \<and> fst (updateWPM (ascii ''fast'') loaded) = None
   \<and> wpm (snd (updateWPM (ascii ''fast'') loaded)) = NaN"
proof -
  have "parseInt (ascii ''fast'') = NaN" by (simp add: parse_defs)
  then show ?thesis
    unfolding loaded_eq by (simp add: updateWPM_def Let_def parse_5000 parse_minus_100)
qed


subsection \<open>Playing\<close>

text \<open>
  Claim C5. When the word sequence is empty, \<open>play\<close> reports \<open>EmptySequence\<close> and returns
  the state it was given, unchanged in every field: the playing flag, the position and the
  timers are as before. The reader remains usable: once a text with a word is loaded into the
  state the failed call left, \<open>play\<close> succeeds and shows the first word.
\<close>

theorem play_empty_sequence:
  assumes "words e = []"
  shows "play e = (Some EmptySequence, e)
    \<and> (tokenize t \<noteq> [] \<longrightarrow>
          fst (play (loadText t (snd (play e)))) = None
        \<and> isPlaying (snd (play (loadText t (snd (play e)))))
        \<and> wordDisplay (snd (play (loadText t (snd (play e))))) = hd (tokenize t))"
proof -
  have a: "play e = (Some EmptySequence, e)" using assms by (simp add: play_def)
  have "fst (play (loadText t e)) = None
        \<and> isPlaying (snd (play (loadText t e)))
        \<and> wordDisplay (snd (play (loadText t e))) = hd (tokenize t)"
    if ne: "tokenize t \<noteq> []"
  proof -
    from ne have w: "words (loadText t e) \<noteq> []" by (simp add: loadText_fields)
    from ne show ?thesis
      by (simp add: play_fields [OF w] loadText_fields loadText_nonblank hd_conv_nth)
  qed
  with a show ?thesis by simp
qed

text \<open>The theorem of C5 at the reader whose text area has been cleared.\<close>

theorem play_empty_sequence_witness:
  "words cleared = []
   \<and> play cleared = (Some EmptySequence, cleared)
   \<and> \<not> isPlaying cleared
   \<and> timers cleared = []
   \<and> currentWordIndex cleared = 0
   \<and> tokenize (ascii ''delta'') \<noteq> []
   \<and> isPlaying (snd (play (loadText (ascii ''delta'') (snd (play cleared)))))
   \<and> wordDisplay (snd (play (loadText (ascii ''delta'') (snd (play cleared))))) = ascii ''delta''"
proof -
  have w: "words cleared = []" unfolding cleared_eq by simp
  have f: "\<not> isPlaying cleared" "timers cleared = []" "currentWordIndex cleared = 0"
    unfolding cleared_eq by simp_all
  have d: "tokenize (ascii ''delta'') \<noteq> []" "hd (tokenize (ascii ''delta'')) = ascii ''delta''"
    by (simp_all add: tokenize_delta)
  from play_empty_sequence [OF w, of "ascii ''delta''"] d
  have a: "play cleared = (Some EmptySequence, cleared)"
    and b: "isPlaying (snd (play (loadText (ascii ''delta'') (snd (play cleared)))))"
      "wordDisplay (snd (play (loadText (ascii ''delta'') (snd (play cleared)))))
        = hd (tokenize (ascii ''delta''))"
    by blast+
  from a b w f d show ?thesis by simp
qed

text \<open>
  Claim C6, as amended. In every reachable state with a non-empty sequence, the reader is in
  the Finished state exactly when the position has reached the end of the sequence; \<open>play\<close>
  succeeds and sets the position to 0 exactly in that case and otherwise keeps it, and the word
  then shown is the one at the pre-call position unless that was the end, where it is the first
  word. After a pause during playback, \<open>play\<close> resumes at the position of the pause. With an
  empty sequence \<open>play\<close> reports \<open>EmptySequence\<close> and changes nothing, the position
  included, whatever state the reader is in.
\<close>

theorem play_resumes_or_restarts:
  assumes "reachable e"
  shows "(words e \<noteq> [] \<longrightarrow>
      (finished e \<longleftrightarrow> length (words e) \<le> currentWordIndex e)
    \<and> fst (play e) = None
    \<and> isPlaying (snd (play e))
    \<and> currentWordIndex (snd (play e)) = (if finished e then 0 else currentWordIndex e)
    \<and> wordDisplay (snd (play e)) = words e ! (if finished e then 0 else currentWordIndex e)
    \<and> (isPlaying e \<longrightarrow>
          \<not> finished (pause e)
        \<and> currentWordIndex (pause e) = currentWordIndex e
        \<and> currentWordIndex (snd (play (pause e))) = currentWordIndex e
        \<and> wordDisplay (snd (play (pause e))) = words e ! currentWordIndex e))
    \<and> (words e = [] \<longrightarrow> play e = (Some EmptySequence, e))"
proof -
  have empty: "play e = (Some EmptySequence, e)" if "words e = []"
    using that by (simp add: play_def)
  have "(finished e \<longleftrightarrow> length (words e) \<le> currentWordIndex e)
    \<and> fst (play e) = None
    \<and> isPlaying (snd (play e))
    \<and> currentWordIndex (snd (play e)) = (if finished e then 0 else currentWordIndex e)
    \<and> wordDisplay (snd (play e)) = words e ! (if finished e then 0 else currentWordIndex e)
    \<and> (isPlaying e \<longrightarrow>
          \<not> finished (pause e)
        \<and> currentWordIndex (pause e) = currentWordIndex e
        \<and> currentWordIndex (snd (play (pause e))) = currentWordIndex e
        \<and> wordDisplay (snd (play (pause e))) = words e ! currentWordIndex e)"
    if ne: "words e \<noteq> []"
  proof -
    from reachable_inv [OF assms] have p: "position_inv e" by (simp add: engine_inv_def)
    with ne have fin: "finished e \<longleftrightarrow> length (words e) \<le> currentWordIndex e"
      by (auto simp: position_inv_def finished_def)
    have w: "words (pause e) \<noteq> []" using ne by (simp add: pause_fields)
    have "\<not> finished (pause e)
          \<and> currentWordIndex (snd (play (pause e))) = currentWordIndex e
          \<and> wordDisplay (snd (play (pause e))) = words e ! currentWordIndex e"
      if "isPlaying e"
    proof -
      from p ne that have "currentWordIndex e < length (words e)"
        and "wordDisplay e \<noteq> finishedText"
        by (auto simp: position_inv_def)
      then show ?thesis
        by (simp add: play_fields [OF w] pause_fields finished_def)
    qed
    then show ?thesis
      using fin by (simp add: play_fields [OF ne] pause_fields)
  qed
  with empty show ?thesis by blast
qed

text \<open>
  The theorem of C6 at the reader that has played out, which restarts; at the playing reader
  paused at its second word, which resumes there; and at the reader with its text area
  cleared, where \<open>play\<close> changes nothing.
\<close>

theorem play_resumes_or_restarts_witness:
  "reachable played_out
   \<and> words played_out \<noteq> []
   \<and> finished played_out
   \<and> currentWordIndex played_out = 3
   \<and> currentWordIndex (snd (play played_out)) = 0
   \<and> wordDisplay (snd (play played_out)) = ascii ''alpha''
   \<and> reachable playing
   \<and> isPlaying playing
   \<and> currentWordIndex (pause playing) = 1
   \<and> currentWordIndex (snd (play (pause playing))) = 1
   \<and> wordDisplay (snd (play (pause playing))) = ascii ''beta''
   \<and> reachable cleared
   \<and> words cleared = []
   \<and> play cleared = (Some EmptySequence, cleared)"
proof -
  have a: "words played_out \<noteq> []" "currentWordIndex played_out = 3"
    "length (words played_out) = 3" "words played_out ! 0 = ascii ''alpha''"
    unfolding played_out_eq by simp_all
  have b: "words playing \<noteq> []" "isPlaying playing" "currentWordIndex playing = 1"
    "words playing ! 1 = ascii ''beta''"
    unfolding playing_eq by simp_all
  have c: "words cleared = []" unfolding cleared_eq by simp
  note t1 = play_resumes_or_restarts [OF reachable_concrete(1)]
  from t1 a have f: "finished played_out" by simp
  with t1 a have "currentWordIndex (snd (play played_out)) = 0"
    "wordDisplay (snd (play played_out)) = ascii ''alpha''"
    by simp_all
  moreover from play_resumes_or_restarts [OF reachable_concrete(4)] b
  have "currentWordIndex (pause playing) = 1"
    "currentWordIndex (snd (play (pause playing))) = 1"
    "wordDisplay (snd (play (pause playing))) = ascii ''beta''"
    by simp_all
  moreover from play_resumes_or_restarts [OF reachable_concrete(2)] c
  have "play cleared = (Some EmptySequence, cleared)" by blast
  ultimately show ?thesis
    using a b c f reachable_concrete(1,2,4) by blast
qed

text \<open>
  Claim C6 as stated fails with an empty sequence. After the text area has been cleared
  during playback and the timer has fired once more, the reader is in the Finished state with
  its position, 2, past the end of the sequence; \<open>play\<close> then reports \<open>EmptySequence\<close> and
  leaves the position at 2.
\<close>

theorem play_finished_empty_counterexample:
  "reachable emptied_played_out
   \<and> finished emptied_played_out
   \<and> length (words emptied_played_out) \<le> currentWordIndex emptied_played_out
   \<and> currentWordIndex emptied_played_out = 2
   \<and> fst (play emptied_played_out) = Some EmptySequence
   \<and> currentWordIndex (snd (play emptied_played_out)) = 2
   \<and> \<not> isPlaying (snd (play emptied_played_out))"
proof -
  have "finished emptied_played_out
     \<and> length (words emptied_played_out) \<le> currentWordIndex emptied_played_out
     \<and> currentWordIndex emptied_played_out = 2
     \<and> fst (play emptied_played_out) = Some EmptySequence
     \<and> currentWordIndex (snd (play emptied_played_out)) = 2
     \<and> \<not> isPlaying (snd (play emptied_played_out))"
    unfolding emptied_played_out_eq by (simp add: finished_def play_def)
  then show ?thesis
    using reachable_after_playing(3) by blast
qed

subsection \<open>Displaying a word\<close>

text \<open>
  Claim C10. \<open>displayWord\<close> never reads the word sequence out of range and never throws:
  when the position is below the length the read yields the word there, a member of the
  sequence, and that word is displayed; when the position has reached the length or passed
  it the state is returned unchanged. Hence the word \<open>play\<close> shows is a member of the
  sequence, and after a timer tick the display holds a member of the sequence or the closing
  message.
\<close>

theorem displayWord_in_bounds:
  "displayWord e \<noteq> None
   \<and> (currentWordIndex e < length (words e) \<longrightarrow>
        element (words e) (currentWordIndex e) = Some (words e ! currentWordIndex e)
      \<and> map_option wordDisplay (displayWord e) = Some (words e ! currentWordIndex e)
      \<and> words e ! currentWordIndex e \<in> set (words e))
   \<and> (length (words e) \<le> currentWordIndex e \<longrightarrow> displayWord e = Some e)
   \<and> (words e \<noteq> [] \<longrightarrow>
        fst (play e) = None \<and> wordDisplay (snd (play e)) \<in> set (words e))
   \<and> (wordDisplay (tick e) \<in> set (words e) \<or> wordDisplay (tick e) = finishedText)"
proof -
  have "wordDisplay (tick e) \<in> set (words e) \<or> wordDisplay (tick e) = finishedText"
    by (simp add: tick_def displayWord_eq pause_def clearInterval_def updateWordCounter_def
        updateProgress_def Let_def split: option.splits)
  moreover have "words e \<noteq> [] \<Longrightarrow> wordDisplay (snd (play e)) \<in> set (words e)"
    by (simp add: play_fields)
  ultimately show ?thesis
    by (simp add: displayWord_eq element_def play_fields updateWordCounter_def
        updateProgress_def)
qed

text \<open>
  The theorem of C10 at the playing reader, at two readers whose position is not below the
  length, and for \<open>play\<close> on the reader that has played out.
\<close>

theorem displayWord_in_bounds_witness:
  "currentWordIndex playing < length (words playing)
   \<and> map_option wordDisplay (displayWord playing) = Some (ascii ''beta'')
   \<and> length (words played_out) \<le> currentWordIndex played_out
   \<and> displayWord played_out = Some played_out
   \<and> length (words paused_cleared) \<le> currentWordIndex paused_cleared
   \<and> displayWord paused_cleared = Some paused_cleared
   \<and> words played_out \<noteq> []
   \<and> wordDisplay (snd (play played_out)) \<in> set (words played_out)"
proof -
  have d: "words played_out \<noteq> []" unfolding played_out_eq by simp
  from displayWord_in_bounds [of played_out] d
  have e: "wordDisplay (snd (play played_out)) \<in> set (words played_out)" by blast
  have a: "currentWordIndex playing < length (words playing)"
    "words playing ! currentWordIndex playing = ascii ''beta''"
    unfolding playing_eq by simp_all
  have b: "length (words played_out) \<le> currentWordIndex played_out"
    unfolding played_out_eq by simp
  have c: "length (words paused_cleared) \<le> currentWordIndex paused_cleared"
    unfolding paused_cleared_eq by simp
  from displayWord_in_bounds [of playing] a
  have "map_option wordDisplay (displayWord playing) = Some (ascii ''beta'')" by simp
  moreover from displayWord_in_bounds [of played_out] b
  have "displayWord played_out = Some played_out" by blast
  moreover from displayWord_in_bounds [of paused_cleared] c
  have "displayWord paused_cleared = Some paused_cleared" by blast
  ultimately show ?thesis using a(1) b c d e by blast
qed

end
